theory Spec2Isabelle
  imports Complex_Main
begin

section \<open>The query parser (services/forensicsApi: parseForensicsQuery)\<close>

text \<open>
  Strings are lists of characters. The model covers ASCII input: on ASCII text a
  JavaScript string index and a character of the list coincide, and
  \<^verbatim>\<open>toLowerCase\<close> only moves \<^verbatim>\<open>A-Z\<close>.
\<close>

definition is_upper :: "char \<Rightarrow> bool" where
  "is_upper c = (let n = (of_char c :: nat) in 65 \<le> n \<and> n \<le> 90)"

definition is_lower :: "char \<Rightarrow> bool" where
  "is_lower c = (let n = (of_char c :: nat) in 97 \<le> n \<and> n \<le> 122)"

definition is_digit :: "char \<Rightarrow> bool" where
  "is_digit c = (let n = (of_char c :: nat) in 48 \<le> n \<and> n \<le> 57)"

text \<open>The class \<^verbatim>\<open>\w\<close>: letters, digits and the underscore.\<close>

definition is_word :: "char \<Rightarrow> bool" where
  "is_word c = (is_upper c \<or> is_lower c \<or> is_digit c \<or> c = CHR ''_'')"

definition lower_char :: "char \<Rightarrow> char" where
  "lower_char c = (if is_upper c then char_of (of_char c + (32 :: nat)) else c)"

definition toLowerCase :: "string \<Rightarrow> string" where
  "toLowerCase s = map lower_char s"

text \<open>\<^verbatim>\<open>s.includes(sub)\<close>: \<^verbatim>\<open>sub\<close> occurs in \<^verbatim>\<open>s\<close> as a contiguous run.\<close>

fun str_includes :: "string \<Rightarrow> string \<Rightarrow> bool" where
  "str_includes [] sub = (sub = [])"
| "str_includes (c # cs) sub = (take (length sub) (c # cs) = sub \<or> str_includes cs sub)"

subsection \<open>The regular expressions\<close>

text \<open>
  The two patterns of the parser use a word boundary, single characters, character
  classes, greedy repetition of a class with a lower bound (\<^verbatim>\<open>+\<close> is \<^verbatim>\<open>{1,}\<close>),
  sequence and alternation. The matcher backtracks as the JavaScript one does: it
  returns, in the order the engine would try them, every position a match of the
  pattern can end at. A position is the character before it (if any) and the text
  after it.
\<close>

datatype regex =
    WordBoundary
  | Class "char \<Rightarrow> bool"
  | Many nat "char \<Rightarrow> bool"
  | Seq regex regex
  | Alt regex regex

type_synonym cursor = "char option \<times> string"

fun many :: "nat \<Rightarrow> (char \<Rightarrow> bool) \<Rightarrow> cursor \<Rightarrow> cursor list" where
  "many n p (prev, []) = (if n = 0 then [(prev, [])] else [])"
| "many n p (prev, c # cs) =
     (if p c then many (n - 1) p (Some c, cs) else []) @
     (if n = 0 then [(prev, c # cs)] else [])"

definition word_before :: "cursor \<Rightarrow> bool" where
  "word_before cur = (case fst cur of None \<Rightarrow> False | Some c \<Rightarrow> is_word c)"

definition word_after :: "cursor \<Rightarrow> bool" where
  "word_after cur = (case snd cur of [] \<Rightarrow> False | c # _ \<Rightarrow> is_word c)"

fun rmatch :: "regex \<Rightarrow> cursor \<Rightarrow> cursor list" where
  "rmatch WordBoundary cur = (if word_before cur \<noteq> word_after cur then [cur] else [])"
| "rmatch (Class p) cur =
     (case snd cur of [] \<Rightarrow> [] | c # cs \<Rightarrow> if p c then [(Some c, cs)] else [])"
| "rmatch (Many n p) cur = many n p cur"
| "rmatch (Seq a b) cur = concat (map (rmatch b) (rmatch a cur))"
| "rmatch (Alt a b) cur = rmatch a cur @ rmatch b cur"

text \<open>
  \<^verbatim>\<open>str.match(re)\<close> with the flag \<^verbatim>\<open>g\<close>: the matches from left to right, each
  search starting where the previous match ended (one character further after an
  empty match), and \<^verbatim>\<open>null\<close> when there is none. \<open>scan\<close> walks the text once;
  its counter is the number of characters still covered by the previous match.
\<close>

fun scan :: "regex \<Rightarrow> nat \<Rightarrow> cursor \<Rightarrow> string list" where
  "scan r k (prev, []) = (if k = 0 \<and> rmatch r (prev, []) \<noteq> [] then [[]] else [])"
| "scan r k (prev, c # cs) =
     (if 0 < k then scan r (k - 1) (Some c, cs)
      else (case rmatch r (prev, c # cs) of
              [] \<Rightarrow> scan r 0 (Some c, cs)
            | e # _ \<Rightarrow>
                (let m = take (length (c # cs) - length (snd e)) (c # cs)
                 in m # scan r (length m - 1) (Some c, cs))))"

definition match_g :: "regex \<Rightarrow> string \<Rightarrow> string list option" where
  "match_g r s = (case scan r 0 (None, s) of [] \<Rightarrow> None | m # ms \<Rightarrow> Some (m # ms))"

definition lit :: "char \<Rightarrow> regex" where
  "lit x = Class (\<lambda>c. c = x)"

text \<open>A literal under the flag \<^verbatim>\<open>i\<close>: either case of each letter.\<close>

fun lit_ci :: "string \<Rightarrow> regex" where
  "lit_ci [] = Many 0 (\<lambda>c. False)"
| "lit_ci [x] = Class (\<lambda>c. lower_char c = x)"
| "lit_ci (x # xs) = Seq (Class (\<lambda>c. lower_char c = x)) (lit_ci xs)"

text \<open>\<^verbatim>\<open>/\b[A-Za-z0-9._%+-]+@[A-Za-z0-9.-]+\.[A-Z|a-z]{2,}\b/g\<close>\<close>

definition emailRegex :: regex where
  "emailRegex =
     Seq WordBoundary
    (Seq (Many 1 (\<lambda>c. is_upper c \<or> is_lower c \<or> is_digit c \<or> c \<in> set ''._%+-''))
    (Seq (lit CHR ''@'')
    (Seq (Many 1 (\<lambda>c. is_upper c \<or> is_lower c \<or> is_digit c \<or> c \<in> set ''.-''))
    (Seq (lit CHR ''.'')
    (Seq (Many 2 (\<lambda>c. is_upper c \<or> c = CHR ''|'' \<or> is_lower c))
         WordBoundary)))))"

text \<open>\<^verbatim>\<open>/\b[\w\/\\.-]+\.(jpg|jpeg|png|gif|mp4|avi|wav|mp3)\b/gi\<close>\<close>

definition fileRegex :: regex where
  "fileRegex =
     Seq WordBoundary
    (Seq (Many 1 (\<lambda>c. is_word c \<or> c \<in> {CHR ''/'', CHR 0x5C, CHR ''.'', CHR ''-''}))
    (Seq (lit CHR ''.'')
    (Seq (Alt (lit_ci ''jpg'') (Alt (lit_ci ''jpeg'') (Alt (lit_ci ''png'')
         (Alt (lit_ci ''gif'') (Alt (lit_ci ''mp4'') (Alt (lit_ci ''avi'')
         (Alt (lit_ci ''wav'') (lit_ci ''mp3''))))))))
         WordBoundary)))"

datatype priority = low | medium | high

record query_options =
  humanReview :: bool
  priority :: priority
  timeout :: nat

record ForensicsQuery =
  q_query :: string
  targets :: "string list"
  q_pipelines :: "string list"
  options :: "query_options option"

definition parseForensicsQuery :: "string \<Rightarrow> ForensicsQuery" where
  "parseForensicsQuery naturalLanguageQuery =
     (let query = toLowerCase naturalLanguageQuery;
          emails = match_g emailRegex naturalLanguageQuery;
          targets0 = (case emails of None \<Rightarrow> [] | Some es \<Rightarrow> es);
          files = match_g fileRegex naturalLanguageQuery;
          targets1 = targets0 @ (case files of None \<Rightarrow> [] | Some fs \<Rightarrow> fs);
          pipelines0 =
            (if str_includes query ''alias'' \<or> str_includes query ''username'' \<or> str_includes query ''map''
             then [''alias-mapping''] else []) @
            (if str_includes query ''exif'' \<or> str_includes query ''metadata'' \<or> str_includes query ''extract''
             then [''metadata-extraction''] else []) @
            (if str_includes query ''face'' \<or> str_includes query ''image'' \<or> str_includes query ''reverse''
             then [''image-face-analysis''] else []) @
            (if str_includes query ''ip'' \<or> str_includes query ''geo'' \<or> str_includes query ''location''
             then [''geo-ip-lookup''] else []) @
            (if str_includes query ''deepfake'' \<or> str_includes query ''manipulation''
                \<or> str_includes query ''authentic''
             then [''deepfake-detection''] else []);
          pipelines1 =
            (if length pipelines0 = 0
             then [''alias-mapping'', ''metadata-extraction'', ''image-face-analysis'',
                   ''geo-ip-lookup'', ''deepfake-detection'']
             else pipelines0)
      in \<lparr> q_query = naturalLanguageQuery,
           targets = (if 0 < length targets1 then targets1 else [''unknown'']),
           q_pipelines = pipelines1,
           options = Some \<lparr> humanReview = True, priority = medium, timeout = 300000 \<rparr> \<rparr>)"

section \<open>The investigation hook (hooks/useForensicsInvestigation)\<close>

subsection \<open>Data\<close>

text \<open>
  Numbers are exact rationals, times are integers (milliseconds), and the items of
  \<^verbatim>\<open>data\<close> are opaque. The \<^verbatim>\<open>icon\<close> of a pipeline is presentation only and is
  left out. Fields are prefixed where two interfaces share a name.
\<close>

datatype result_status = ResSuccess | ResError | ResPartial

record result_metadata =
  executionTime :: nat
  confidence :: rat
  sources :: "string list"

record PipelineResult =
  pipelineId :: string
  r_status :: result_status
  data :: "string list"
  metadata :: result_metadata
  errors :: "string list option"

datatype pipeline_status = Pending | Running | Completed | Error

record Pipeline =
  p_id :: string
  p_name :: string
  p_status :: pipeline_status
  progress :: rat
  results :: "PipelineResult option"
  p_error :: "string option"

datatype investigation_status = Active | InvCompleted | Paused | InvError

record Investigation =
  inv_id :: string
  inv_query :: string
  status :: investigation_status
  startTime :: int
  endTime :: "int option"
  pipelines :: "Pipeline list"
  summary :: "string option"

text \<open>A thrown value: an \<^verbatim>\<open>Error\<close> object with its message, or anything else.\<close>

datatype js_thrown = ErrorObj string | OtherThrown

text \<open>
  \<^verbatim>\<open>ForensicsWebSocket\<close>: \<^verbatim>\<open>connect\<close> only logs, so the socket field stays
  \<^verbatim>\<open>null\<close>. The hook drops the object right after calling \<^verbatim>\<open>disconnect\<close> on it,
  so what is kept of that call is the session's count of such calls.
\<close>

record ForensicsWebSocket =
  ws :: bool

definition ws_connect :: "string \<Rightarrow> ForensicsWebSocket \<Rightarrow> ForensicsWebSocket" where
  "ws_connect investigationId w = w"

subsection \<open>The stage runners\<close>

datatype executor_fn =
    executeAliasMappingPipeline
  | executeMetadataExtractionPipeline
  | executeImageFaceAnalysisPipeline
  | executeGeoIpLookupPipeline
  | executeDeepfakeDetectionPipeline

text \<open>
  The table \<^verbatim>\<open>pipelineExecutors\<close>, read at a pipeline's id. Only the table's own
  five keys are modelled; an id that names a member every JavaScript object
  inherits (such as \<^verbatim>\<open>constructor\<close>) is outside the model.
\<close>

definition pipelineExecutors :: "string \<Rightarrow> executor_fn option" where
  "pipelineExecutors k =
     (if k = ''alias-mapping'' then Some executeAliasMappingPipeline
      else if k = ''metadata-extraction'' then Some executeMetadataExtractionPipeline
      else if k = ''image-face-analysis'' then Some executeImageFaceAnalysisPipeline
      else if k = ''geo-ip-lookup'' then Some executeGeoIpLookupPipeline
      else if k = ''deepfake-detection'' then Some executeDeepfakeDetectionPipeline
      else None)"

text \<open>
  What a runner is called with: the alias runner gets \<^verbatim>\<open>query.targets[0] || 'unknown'\<close>
  (a missing or empty first target gives the fallback), every other runner the whole list.
\<close>

datatype runner_arg = One string | All "string list"

definition runner_argument :: "string \<Rightarrow> ForensicsQuery \<Rightarrow> runner_arg" where
  "runner_argument pid query =
     (if pid = ''alias-mapping''
      then One (case targets query of [] \<Rightarrow> ''unknown''
                | t # _ \<Rightarrow> if t = [] then ''unknown'' else t)
      else All (targets query))"

subsection \<open>Session state\<close>

text \<open>
  Where the running \<^verbatim>\<open>executePipelines\<close> call stands. Its loop body is cut at the
  points where state is written: before an iteration (\<open>LoopHead i\<close>), after pipeline
  \<open>i\<close> was marked running and its interval was set (\<open>Started i\<close>), and suspended in
  \<^verbatim>\<open>await\<close> on the runner (\<open>Awaiting i f a\<close>).
\<close>

datatype exec_pc =
    Idle
  | LoopHead nat
  | Started nat
  | Awaiting nat executor_fn runner_arg
  | Finished

text \<open>
  The React state of the hook, the captured arguments of the executor call
  (\<open>run_pipelines\<close> is \<^verbatim>\<open>investigation.pipelines\<close>), the live intervals (each named
  by the loop index its callback captured), the number of \<^verbatim>\<open>disconnect()\<close> calls made
  so far, and an exception raised outside the executor, if any. A state update takes
  effect at once.
\<close>

record session =
  currentInvestigation :: "Investigation option"
  isLoading :: bool
  hook_error :: "string option"
  wsConnection :: "ForensicsWebSocket option"
  pc :: exec_pc
  run_pipelines :: "Pipeline list"
  run_query :: "ForensicsQuery option"
  intervals :: "nat list"
  disconnects :: nat
  uncaught :: "js_thrown option"

definition initial_session :: session where
  "initial_session =
     \<lparr> currentInvestigation = None, isLoading = False, hook_error = None,
       wsConnection = None, pc = Idle, run_pipelines = [], run_query = None,
       intervals = [], disconnects = 0, uncaught = None \<rparr>"

subsection \<open>The state updates of the executor\<close>

text \<open>
  Each function below is one updater passed to \<^verbatim>\<open>setCurrentInvestigation\<close>: it
  returns \<^verbatim>\<open>prev\<close> when there is no investigation, and otherwise a copy whose
  pipeline list is written at index \<open>i\<close>. The written record spreads \<open>pipeline\<close>,
  the entry of the executor's own captured list. The index is within the list in
  every state the executor reaches (lemma \<open>run_inv_reachable\<close> below), so the write is a list
  update.
\<close>

definition mark_running :: "nat \<Rightarrow> Pipeline \<Rightarrow> Investigation option \<Rightarrow> Investigation option" where
  "mark_running i pipeline prev =
     (case prev of None \<Rightarrow> None
      | Some cur \<Rightarrow>
          Some (cur\<lparr>pipelines :=
                  (pipelines cur)[i := pipeline\<lparr>p_status := Running, progress := 0\<rparr>]\<rparr>))"

definition mark_completed ::
  "nat \<Rightarrow> Pipeline \<Rightarrow> PipelineResult \<Rightarrow> Investigation option \<Rightarrow> Investigation option" where
  "mark_completed i pipeline result prev =
     (case prev of None \<Rightarrow> None
      | Some cur \<Rightarrow>
          Some (cur\<lparr>pipelines :=
                  (pipelines cur)[i := pipeline\<lparr>p_status := Completed, progress := 100,
                                                 results := Some result\<rparr>]\<rparr>))"

definition error_message :: "js_thrown \<Rightarrow> string" where
  "error_message err =
     (case err of ErrorObj m \<Rightarrow> m | OtherThrown \<Rightarrow> ''Pipeline execution failed'')"

definition mark_error ::
  "nat \<Rightarrow> Pipeline \<Rightarrow> js_thrown \<Rightarrow> Investigation option \<Rightarrow> Investigation option" where
  "mark_error i pipeline err prev =
     (case prev of None \<Rightarrow> None
      | Some cur \<Rightarrow>
          Some (cur\<lparr>pipelines :=
                  (pipelines cur)[i := pipeline\<lparr>p_status := Error, progress := 0,
                                                 p_error := Some (error_message err)\<rparr>]\<rparr>))"

text \<open>
  The interval's updater; \<open>u\<close> is the value of \<^verbatim>\<open>Math.random()\<close>. Reading
  \<^verbatim>\<open>.status\<close> of an entry beyond the list raises a \<^verbatim>\<open>TypeError\<close>.
\<close>

definition progress_tick :: "nat \<Rightarrow> rat \<Rightarrow> Investigation \<Rightarrow> js_thrown + Investigation" where
  "progress_tick i u cur =
     (if i < length (pipelines cur)
      then (let currentPipeline = pipelines cur ! i
            in if p_status currentPipeline = Running \<and> progress currentPipeline < 90
               then Inr (cur\<lparr>pipelines :=
                           (pipelines cur)[i := currentPipeline
                              \<lparr>progress := min 90 (progress currentPipeline + u * 15)\<rparr>]\<rparr>)
               else Inr cur)
      else Inl (ErrorObj ''Cannot read properties of undefined (reading 'status')''))"

function string_of_nat :: "nat \<Rightarrow> string" where
  "string_of_nat n =
     (if n < 10 then [''0123456789'' ! n]
      else string_of_nat (n div 10) @ [''0123456789'' ! (n mod 10)])"
  by pat_completeness auto
termination
  by (relation "measure (\<lambda>n. n)") auto

declare string_of_nat.simps [simp del]

text \<open>The last update of the executor: overall status, end time and summary line.\<close>

definition mark_finished :: "int \<Rightarrow> Investigation option \<Rightarrow> Investigation option" where
  "mark_finished now prev =
     (case prev of None \<Rightarrow> None
      | Some cur \<Rightarrow>
          (let completedPipelines =
                 length (filter (\<lambda>p. p_status p = Completed) (pipelines cur));
               totalPipelines = length (pipelines cur)
           in Some (cur\<lparr>status :=
                        (if completedPipelines = totalPipelines then InvCompleted else InvError),
                      endTime := Some now,
                      summary := Some (''Investigation completed. ''
                         @ string_of_nat completedPipelines @ ''/''
                         @ string_of_nat totalPipelines @ '' pipelines successful.'')\<rparr>)))"

subsection \<open>The executor, step by step\<close>

text \<open>
  \<open>exec_proceed\<close> runs the executor's next synchronous piece. At the head of
  iteration \<open>i\<close> it leaves the loop when \<open>i\<close> has reached the length of the
  captured list, and otherwise marks the pipeline running and sets the progress
  interval. After that it looks the runner up: a runner is called and awaited; a
  missing one throws \<^verbatim>\<open>Error(`Unknown pipeline: ${pipeline.id}`)\<close>, which the
  \<^verbatim>\<open>catch\<close> block turns into the pipeline's error before the loop goes on. The
  executor of a started investigation always holds its query (part of \<open>run_inv\<close>).
\<close>

definition exec_proceed :: "int \<Rightarrow> session \<Rightarrow> session" where
  "exec_proceed now s =
     (case pc s of
        LoopHead i \<Rightarrow>
          (if i < length (run_pipelines s)
           then s\<lparr>currentInvestigation :=
                     mark_running i (run_pipelines s ! i) (currentInvestigation s),
                  intervals := intervals s @ [i],
                  pc := Started i\<rparr>
           else s\<lparr>currentInvestigation := mark_finished now (currentInvestigation s),
                  pc := Finished\<rparr>)
      | Started i \<Rightarrow>
          (let pipeline = run_pipelines s ! i
           in case (pipelineExecutors (p_id pipeline), run_query s) of
                (Some executor, Some query) \<Rightarrow>
                  s\<lparr>pc := Awaiting i executor (runner_argument (p_id pipeline) query)\<rparr>
              | _ \<Rightarrow>
                  s\<lparr>currentInvestigation :=
                      mark_error i pipeline (ErrorObj (''Unknown pipeline: '' @ p_id pipeline))
                        (currentInvestigation s),
                    pc := LoopHead (i + 1)\<rparr>)
      | _ \<Rightarrow> s)"

text \<open>The awaited runner resolves: the interval is cleared and the result stored.\<close>

definition exec_resolve :: "PipelineResult \<Rightarrow> session \<Rightarrow> session" where
  "exec_resolve result s =
     (case pc s of
        Awaiting i executor arg \<Rightarrow>
          s\<lparr>intervals := remove1 i (intervals s),
            currentInvestigation :=
              mark_completed i (run_pipelines s ! i) result (currentInvestigation s),
            pc := LoopHead (i + 1)\<rparr>
      | _ \<Rightarrow> s)"

text \<open>The awaited runner rejects: control enters the \<^verbatim>\<open>catch\<close> block.\<close>

definition exec_reject :: "js_thrown \<Rightarrow> session \<Rightarrow> session" where
  "exec_reject err s =
     (case pc s of
        Awaiting i executor arg \<Rightarrow>
          s\<lparr>currentInvestigation :=
              mark_error i (run_pipelines s ! i) err (currentInvestigation s),
            pc := LoopHead (i + 1)\<rparr>
      | _ \<Rightarrow> s)"

text \<open>A live interval fires. A cleared interval never fires.\<close>

definition fire_interval :: "nat \<Rightarrow> rat \<Rightarrow> session \<Rightarrow> session" where
  "fire_interval i u s =
     (if i \<in> set (intervals s)
      then (case currentInvestigation s of
              None \<Rightarrow> s
            | Some cur \<Rightarrow>
                (case progress_tick i u cur of
                   Inl err \<Rightarrow> s\<lparr>uncaught := Some err\<rparr>
                 | Inr cur' \<Rightarrow> s\<lparr>currentInvestigation := Some cur'\<rparr>))
      else s)"

subsection \<open>The operations of the hook\<close>

definition toggleInvestigationStatus :: "session \<Rightarrow> session" where
  "toggleInvestigationStatus s =
     s\<lparr>currentInvestigation :=
         (case currentInvestigation s of None \<Rightarrow> None
          | Some prev \<Rightarrow>
              Some (prev\<lparr>status := (if status prev = Active then Paused else Active)\<rparr>))\<rparr>"

definition stopInvestigation :: "int \<Rightarrow> session \<Rightarrow> session" where
  "stopInvestigation now s =
     (let s1 = (case wsConnection s of
                  None \<Rightarrow> s
                | Some w \<Rightarrow> s\<lparr>disconnects := disconnects s + 1, wsConnection := None\<rparr>)
      in s1\<lparr>currentInvestigation :=
             (case currentInvestigation s1 of None \<Rightarrow> None
              | Some prev \<Rightarrow> Some (prev\<lparr>status := Paused, endTime := Some now\<rparr>))\<rparr>)"

text \<open>
  \<^verbatim>\<open>startNewInvestigation\<close>. \<open>boot\<close> is how the awaited backend call
  \<^verbatim>\<open>startInvestigation(parsedQuery)\<close> ended: rejected, or resolved with the new id.
  The executor is called without \<^verbatim>\<open>await\<close>; it is left at the head of its loop.
\<close>

definition startNewInvestigation ::
  "string \<Rightarrow> Pipeline list \<Rightarrow> js_thrown + string \<Rightarrow> int \<Rightarrow> session \<Rightarrow> session" where
  "startNewInvestigation naturalLanguageQuery initialPipelines boot now s =
     (let parsedQuery = parseForensicsQuery naturalLanguageQuery
      in case boot of
           Inl err \<Rightarrow>
             s\<lparr>hook_error := Some (case err of ErrorObj m \<Rightarrow> m
                                    | OtherThrown \<Rightarrow> ''Failed to start investigation''),
               isLoading := False\<rparr>
         | Inr investigationId \<Rightarrow>
             (let investigation =
                    \<lparr> inv_id = investigationId, inv_query = naturalLanguageQuery,
                      status = Active, startTime = now, endTime = None,
                      pipelines = map (\<lambda>p. p\<lparr>p_status := Pending, progress := 0\<rparr>)
                                    initialPipelines,
                      summary = None \<rparr>
              in s\<lparr>hook_error := None,
                   currentInvestigation := Some investigation,
                   wsConnection := Some (ws_connect investigationId \<lparr>ws = False\<rparr>),
                   pc := LoopHead 0,
                   run_pipelines := pipelines investigation,
                   run_query := Some parsedQuery,
                   isLoading := False\<rparr>))"

subsection \<open>Runs\<close>

text \<open>
  What can happen to a session after an investigation was started: the executor
  proceeds; the awaited runner resolves or rejects; an interval fires (\<open>u\<close> is a
  value \<^verbatim>\<open>Math.random\<close> can return, at least 0 and below 1); the user toggles or
  stops. JavaScript runs each synchronous piece to its end, so intervals and user
  actions only come in while the executor is suspended or done. An event that cannot
  happen in a state leaves it as it is. A run belongs to one investigation: starting
  a second one while the executor of the first is still at work is not modelled.
\<close>

datatype event =
    Proceed int
  | Resolve PipelineResult
  | Reject js_thrown
  | Tick nat rat
  | Toggle
  | Stop int

definition suspended :: "session \<Rightarrow> bool" where
  "suspended s = (case pc s of LoopHead i \<Rightarrow> False | Started i \<Rightarrow> False | _ \<Rightarrow> True)"

definition step :: "event \<Rightarrow> session \<Rightarrow> session" where
  "step ev s =
     (case ev of
        Proceed now \<Rightarrow> exec_proceed now s
      | Resolve result \<Rightarrow> exec_resolve result s
      | Reject err \<Rightarrow> exec_reject err s
      | Tick i u \<Rightarrow> (if suspended s \<and> 0 \<le> u \<and> u < 1 then fire_interval i u s else s)
      | Toggle \<Rightarrow> (if suspended s then toggleInvestigationStatus s else s)
      | Stop now \<Rightarrow> (if suspended s then stopInvestigation now s else s))"

fun run :: "event list \<Rightarrow> session \<Rightarrow> session" where
  "run [] s = s"
| "run (ev # evs) s = run evs (step ev s)"

subsection \<open>The summary\<close>

text \<open>
  The result of a JavaScript division: a number, or one of the special values that
  dividing by zero gives.
\<close>

datatype js_number = Num rat | NaN | PosInfinity | NegInfinity

definition js_divide :: "rat \<Rightarrow> nat \<Rightarrow> js_number" where
  "js_divide x n =
     (if n \<noteq> 0 then Num (x / of_nat n)
      else if x = 0 then NaN
      else if 0 < x then PosInfinity else NegInfinity)"

definition isNaN :: "js_number \<Rightarrow> bool" where
  "isNaN x = (x = NaN)"

record InvestigationSummary =
  totalPipelines :: nat
  completedPipelines :: nat
  totalResults :: nat
  averageConfidence :: js_number
  duration :: int

text \<open>\<^verbatim>\<open>pipeline.results?.data.length || 0\<close> and \<^verbatim>\<open>pipeline.results?.metadata.confidence || 0\<close>\<close>

definition result_count :: "Pipeline \<Rightarrow> nat" where
  "result_count pipeline = (case results pipeline of None \<Rightarrow> 0 | Some r \<Rightarrow> length (data r))"

definition result_confidence :: "Pipeline \<Rightarrow> rat" where
  "result_confidence pipeline =
     (case results pipeline of None \<Rightarrow> 0 | Some r \<Rightarrow> confidence (metadata r))"

text \<open>\<open>now\<close> is the value of \<^verbatim>\<open>Date.now()\<close> at the call.\<close>

definition getInvestigationSummary :: "int \<Rightarrow> session \<Rightarrow> InvestigationSummary option" where
  "getInvestigationSummary now s =
     (case currentInvestigation s of
        None \<Rightarrow> None
      | Some cur \<Rightarrow>
          (let completed = filter (\<lambda>p. p_status p = Completed) (pipelines cur);
               total = foldl (\<lambda>acc pipeline. acc + result_count pipeline) 0 completed;
               average =
                 js_divide (foldl (\<lambda>acc pipeline. acc + result_confidence pipeline) 0 completed)
                           (length completed)
           in Some \<lparr> totalPipelines = length (pipelines cur),
                     completedPipelines = length completed,
                     totalResults = total,
                     averageConfidence = (if isNaN average then Num 0 else average),
                     duration = (case endTime cur of
                                   Some e \<Rightarrow> e - startTime cur
                                 | None \<Rightarrow> now - startTime cur) \<rparr>))"

section \<open>The entry point of the app (App.tsx)\<close>

definition app_pipelines :: "Pipeline list" where
  "app_pipelines =
     [ \<lparr> p_id = ''alias'', p_name = ''Alias Mapping'', p_status = Running, progress = 0,
         results = None, p_error = None \<rparr>,
       \<lparr> p_id = ''metadata'', p_name = ''Metadata Extraction'', p_status = Pending,
         progress = 0, results = None, p_error = None \<rparr>,
       \<lparr> p_id = ''image'', p_name = ''Image & Face Analysis'', p_status = Pending,
         progress = 0, results = None, p_error = None \<rparr>,
       \<lparr> p_id = ''geo'', p_name = ''Geo/IP Lookup'', p_status = Pending, progress = 0,
         results = None, p_error = None \<rparr>,
       \<lparr> p_id = ''deepfake'', p_name = ''Deepfake Detection'', p_status = Pending,
         progress = 0, results = None, p_error = None \<rparr> ]"

definition startInvestigationWithPipelines ::
  "string \<Rightarrow> js_thrown + string \<Rightarrow> int \<Rightarrow> session \<Rightarrow> session" where
  "startInvestigationWithPipelines query boot now s =
     startNewInvestigation query app_pipelines boot now s"

section \<open>Sample sessions\<close>

text \<open>Concrete inputs on which the theorems below are instantiated.\<close>

definition sample_result :: "string \<Rightarrow> rat \<Rightarrow> PipelineResult" where
  "sample_result k c =
     \<lparr> pipelineId = k, r_status = ResSuccess, data = [''item 1'', ''item 2'', ''item 3''],
       metadata = \<lparr> executionTime = 2500, confidence = c, sources = [''source''] \<rparr>,
       errors = None \<rparr>"

text \<open>An investigation without pipelines, just started and after its executor ended.\<close>

definition sample_started :: session where
  "sample_started =
     startNewInvestigation ''trace the alias'' [] (Inr ''inv_1'') 100 initial_session"

definition sample_finished :: session where
  "sample_finished = run [Proceed 250] sample_started"


section \<open>Predicates on runs\<close>

text \<open>
  A pipeline is settled when it ended in one of the two ways the executor ends a
  stage, fresh when it has not been started, in flight when it is running with its
  progress between 0 and 90.
\<close>

definition settled :: "Pipeline \<Rightarrow> bool" where
  "settled p =
     ((p_status p = Completed \<and> progress p = 100 \<and> results p \<noteq> None) \<or>
      (p_status p = Error \<and> progress p = 0 \<and> p_error p \<noteq> None))"

definition fresh :: "Pipeline \<Rightarrow> bool" where
  "fresh p = (p_status p = Pending \<and> progress p = 0)"

definition in_flight :: "Pipeline \<Rightarrow> bool" where
  "in_flight p = (p_status p = Running \<and> 0 \<le> progress p \<and> progress p \<le> 90)"

text \<open>
  The pipeline list of a run: the first \<open>k\<close> entries settled, entry \<open>k\<close> in
  flight when \<open>r\<close> holds, and every entry after that fresh.
\<close>

definition shape :: "nat \<Rightarrow> bool \<Rightarrow> Pipeline list \<Rightarrow> bool" where
  "shape k r ps =
     (k \<le> length ps \<and> (r \<longrightarrow> k < length ps) \<and>
      (\<forall>j < length ps.
         (j < k \<longrightarrow> settled (ps ! j)) \<and>
         (j = k \<and> r \<longrightarrow> in_flight (ps ! j)) \<and>
         (k < j \<or> (j = k \<and> \<not> r) \<longrightarrow> fresh (ps ! j))))"

text \<open>
  What holds in every state of a run: there is a current investigation whose pipeline
  list is as long as the executor's captured list and has the shape that belongs to
  the executor's position, the executor holds the parsed query, every live interval
  names an index of the list, and no exception was raised outside the executor.
\<close>

definition run_inv :: "session \<Rightarrow> bool" where
  "run_inv s =
     (case currentInvestigation s of
        None \<Rightarrow> False
      | Some cur \<Rightarrow>
          length (pipelines cur) = length (run_pipelines s) \<and>
          uncaught s = None \<and>
          run_query s \<noteq> None \<and>
          (\<forall>j \<in> set (intervals s). j < length (run_pipelines s)) \<and>
          (case pc s of
             Idle \<Rightarrow> False
           | LoopHead i \<Rightarrow> shape i False (pipelines cur)
           | Started i \<Rightarrow> shape i True (pipelines cur)
           | Awaiting i f a \<Rightarrow> shape i True (pipelines cur)
           | Finished \<Rightarrow> shape (length (pipelines cur)) False (pipelines cur)))"

text \<open>
  How one step may change a single pipeline: not at all, from pending to running with
  progress 0, from running to running with progress that did not fall and is at most
  90, or from running to settled. A step changes at most one entry of the list.
\<close>

definition moves :: "Pipeline \<Rightarrow> Pipeline \<Rightarrow> bool" where
  "moves p p' =
     (p' = p \<or>
      (p_status p = Pending \<and> p_status p' = Running \<and> progress p' = 0) \<or>
      (p_status p = Running \<and> p_status p' = Running \<and>
         progress p \<le> progress p' \<and> progress p' \<le> 90) \<or>
      (p_status p = Running \<and> settled p'))"

definition step_change :: "Pipeline list \<Rightarrow> Pipeline list \<Rightarrow> bool" where
  "step_change ps ps' = (\<exists>i v. ps' = ps[i := v] \<and> moves (ps ! i) v)"

text \<open>
  An investigation with two pipelines: the first stage resolves after one tick of its
  interval, the second rejects.
\<close>

definition two_pipelines :: "Pipeline list" where
  "two_pipelines =
     [ \<lparr> p_id = ''alias-mapping'', p_name = ''Alias Mapping'', p_status = Pending,
         progress = 0, results = None, p_error = None \<rparr>,
       \<lparr> p_id = ''geo-ip-lookup'', p_name = ''Geo/IP Lookup'', p_status = Pending,
         progress = 0, results = None, p_error = None \<rparr> ]"

definition two_started :: session where
  "two_started = startNewInvestigation ''a@b.io'' two_pipelines (Inr ''inv_3'') 100 initial_session"

definition two_events :: "event list" where
  "two_events =
     [Proceed 110, Proceed 110, Tick 0 (1 / 2),
      Resolve (sample_result ''alias-mapping'' (91 / 100)),
      Proceed 120, Proceed 120, Reject (ErrorObj ''timeout''), Proceed 130]"



text \<open>A session started through the entry point of the app.\<close>

definition app_started :: session where
  "app_started = startInvestigationWithPipelines ''a@b.io'' (Inr ''inv_4'') 100 initial_session"

text \<open>The scenario query, submitted through the entry point of the app.\<close>

definition scenario_query :: string where
  "scenario_query = ''check user@example.com images/photo.jpg''"

definition scenario_started :: session where
  "scenario_started =
     startInvestigationWithPipelines scenario_query (Inr ''inv_5'') 100 initial_session"

text \<open>The same five pipelines under the keys of the table \<^verbatim>\<open>pipelineExecutors\<close>.\<close>

definition hook_pipelines :: "Pipeline list" where
  "hook_pipelines =
     map (\<lambda>(p, k). p\<lparr>p_id := k\<rparr>)
       (zip app_pipelines
          [''alias-mapping'', ''metadata-extraction'', ''image-face-analysis'',
           ''geo-ip-lookup'', ''deepfake-detection''])"

definition all_resolve :: "event list" where
  "all_resolve =
     concat (map (\<lambda>k. [Proceed 110, Proceed 110, Resolve (sample_result k (9 / 10))])
       [''alias-mapping'', ''metadata-extraction'', ''image-face-analysis'',
        ''geo-ip-lookup'', ''deepfake-detection'']) @ [Proceed 200]"

section \<open>Properties\<close>

subsection \<open>Auxiliary facts\<close>


lemma sample_finished_investigation:
  "currentInvestigation sample_finished =
     Some \<lparr> inv_id = ''inv_1'', inv_query = ''trace the alias'', status = InvCompleted,
            startTime = 100, endTime = Some 250, pipelines = [],
            summary = Some ''Investigation completed. 0/0 pipelines successful.'' \<rparr>"
  by (simp add: sample_finished_def sample_started_def startNewInvestigation_def
      initial_session_def step_def exec_proceed_def mark_finished_def Let_def
      string_of_nat.simps [of 0])

subsection \<open>The summary of a session without investigation\<close>

text \<open>
  C10. \<open>getInvestigationSummary\<close> returns \<^verbatim>\<open>null\<close> exactly when the session has no
  current investigation, in particular in the initial session, before any query was
  submitted. Once \<open>startNewInvestigation\<close> has created the investigation the result
  is a summary record, and right after the start it is the zeroed one: no completed
  pipeline, no result item, average confidence 0.
\<close>

theorem summary_null_iff_no_investigation:
  "getInvestigationSummary now initial_session = None
   \<and> ((getInvestigationSummary now s = None) = (currentInvestigation s = None))
   \<and> getInvestigationSummary now (startNewInvestigation q ps (Inr ident) t s) =
       Some \<lparr> totalPipelines = length ps, completedPipelines = 0, totalResults = 0,
              averageConfidence = Num 0, duration = now - t \<rparr>"
  by (simp add: getInvestigationSummary_def initial_session_def startNewInvestigation_def
      Let_def js_divide_def isNaN_def split: option.splits)

theorem summary_null_iff_no_investigation_witness:
  "getInvestigationSummary 300 initial_session = None
   \<and> getInvestigationSummary 300 (stopInvestigation 200 initial_session) = None
   \<and> getInvestigationSummary 300 sample_started =
       Some \<lparr> totalPipelines = 0, completedPipelines = 0, totalResults = 0,
              averageConfidence = Num 0, duration = 200 \<rparr>"
  using summary_null_iff_no_investigation [where now = 300
      and s = "stopInvestigation 200 initial_session" and q = "''trace the alias''"
      and ps = "[]" and ident = "''inv_1''" and t = 100]
  by (simp add: sample_started_def stopInvestigation_def initial_session_def)

subsection \<open>Toggling\<close>

text \<open>
  C3, as stated, fails: toggling the finished sample investigation, whose status is
  \<open>InvCompleted\<close>, gives it the status \<open>Active\<close>.
\<close>

theorem toggle_terminal_counterexample:
  "map_option status (currentInvestigation sample_finished) = Some InvCompleted
   \<and> map_option status (currentInvestigation (toggleInvestigationStatus sample_finished))
       = Some Active"
  by (simp add: sample_finished_investigation toggleInvestigationStatus_def)

text \<open>
  C3, amended. \<open>toggleInvestigationStatus\<close> on an investigation whose status is
  \<open>InvCompleted\<close> or \<open>InvError\<close> sets the status to \<open>Active\<close> and changes
  nothing else: the function tests for \<open>Active\<close> only and sends every other status
  to \<open>Active\<close>.
\<close>

theorem toggle_terminal_reopens:
  assumes "currentInvestigation s = Some cur"
    and "status cur = InvCompleted \<or> status cur = InvError"
  shows "toggleInvestigationStatus s = s\<lparr>currentInvestigation := Some (cur\<lparr>status := Active\<rparr>)\<rparr>"
  using assms by (auto simp: toggleInvestigationStatus_def)

theorem toggle_terminal_reopens_witness:
  "map_option status (currentInvestigation sample_finished) = Some InvCompleted
   \<and> toggleInvestigationStatus sample_finished =
       sample_finished\<lparr>currentInvestigation :=
          Some \<lparr> inv_id = ''inv_1'', inv_query = ''trace the alias'', status = Active,
                 startTime = 100, endTime = Some 250, pipelines = [],
                 summary = Some ''Investigation completed. 0/0 pipelines successful.'' \<rparr>\<rparr>"
  using toggle_terminal_reopens [OF sample_finished_investigation]
  by (simp add: sample_finished_investigation)


subsection \<open>Stopping\<close>




subsection \<open>The average confidence\<close>



subsection \<open>The invariant of a run\<close>

lemma run_inv_start:
  "run_inv (startNewInvestigation q ps (Inr ident) t initial_session)"
  by (simp add: run_inv_def startNewInvestigation_def initial_session_def Let_def
      shape_def fresh_def)

lemma run_inv_proceed: "run_inv s \<Longrightarrow> run_inv (exec_proceed now s)"
  by (auto simp: run_inv_def exec_proceed_def mark_running_def mark_finished_def
      mark_error_def shape_def settled_def fresh_def in_flight_def Let_def nth_list_update
      split: option.splits exec_pc.splits)

lemma run_inv_resolve: "run_inv s \<Longrightarrow> run_inv (exec_resolve result s)"
  by (auto simp: run_inv_def exec_resolve_def mark_completed_def shape_def settled_def
      fresh_def in_flight_def nth_list_update dest: notin_set_remove1
      split: option.splits exec_pc.splits)

lemma run_inv_reject: "run_inv s \<Longrightarrow> run_inv (exec_reject err s)"
  by (auto simp: run_inv_def exec_reject_def mark_error_def shape_def settled_def
      fresh_def in_flight_def nth_list_update split: option.splits exec_pc.splits)

lemma shape_tick:
  assumes "shape k r ps" and "i < length ps" and "p_status (ps ! i) = Running"
    and "0 \<le> u"
  shows "shape k r (ps[i := (ps ! i)\<lparr>progress := min 90 (progress (ps ! i) + u * 15)\<rparr>])"
proof -
  from assms(1-3) have ik: "i = k \<and> r"
    unfolding shape_def settled_def fresh_def in_flight_def
    by (metis linorder_neqE_nat pipeline_status.distinct(1,7,9))
  with assms show ?thesis
    by (auto simp: shape_def in_flight_def nth_list_update min_def)
qed

lemma run_inv_fire:
  assumes "run_inv s" and "0 \<le> u"
  shows "run_inv (fire_interval i u s)"
proof (cases "i \<in> set (intervals s)")
  case False
  with assms show ?thesis by (simp add: fire_interval_def)
next
  case True
  from assms(1) obtain cur where cur: "currentInvestigation s = Some cur"
    by (auto simp: run_inv_def split: option.splits)
  with assms(1) True have len: "i < length (pipelines cur)"
    by (auto simp: run_inv_def)
  show ?thesis
  proof (cases "p_status (pipelines cur ! i) = Running \<and> progress (pipelines cur ! i) < 90")
    case False
    with True cur len assms(1) show ?thesis
      by (auto simp: fire_interval_def progress_tick_def Let_def run_inv_def
          split: exec_pc.splits)
  next
    case run: True
    have "\<And>k r. shape k r (pipelines cur) \<Longrightarrow>
        shape k r ((pipelines cur)[i := (pipelines cur ! i)
          \<lparr>progress := min 90 (progress (pipelines cur ! i) + u * 15)\<rparr>])"
      using shape_tick len run assms(2) by blast
    with True cur len run assms(1) show ?thesis
      by (auto simp: fire_interval_def progress_tick_def Let_def run_inv_def
          split: exec_pc.splits)
  qed
qed

lemma run_inv_toggle: "run_inv s \<Longrightarrow> run_inv (toggleInvestigationStatus s)"
  by (auto simp: run_inv_def toggleInvestigationStatus_def split: option.splits exec_pc.splits)

lemma run_inv_stop: "run_inv s \<Longrightarrow> run_inv (stopInvestigation now s)"
  by (auto simp: run_inv_def stopInvestigation_def Let_def split: option.splits exec_pc.splits)

lemma run_inv_step: "run_inv s \<Longrightarrow> run_inv (step ev s)"
  by (cases ev)
    (simp_all add: step_def run_inv_proceed run_inv_resolve run_inv_reject run_inv_fire
      run_inv_toggle run_inv_stop)

lemma run_inv_run: "run_inv s \<Longrightarrow> run_inv (run evs s)"
  by (induction evs arbitrary: s) (simp_all add: run_inv_step)

lemma run_inv_reachable:
  "run_inv (run evs (startNewInvestigation q ps (Inr ident) t initial_session))"
  by (rule run_inv_run) (rule run_inv_start)

subsection \<open>What a step changes\<close>

lemma moves_refl: "moves p p"
  by (simp add: moves_def)

lemma step_change_refl: "step_change ps ps"
  unfolding step_change_def using moves_refl list_update_id by metis

lemma step_change_update: "moves (ps ! i) v \<Longrightarrow> step_change ps (ps[i := v])"
  unfolding step_change_def by blast

lemma step_change_length: "step_change ps ps' \<Longrightarrow> length ps' = length ps"
  by (auto simp: step_change_def)

lemma step_change_moves:
  "step_change ps ps' \<Longrightarrow> j < length ps \<Longrightarrow> moves (ps ! j) (ps' ! j)"
  unfolding step_change_def
  by (metis moves_refl nth_list_update_eq nth_list_update_neq)

lemma step_change_one:
  "step_change ps ps' \<Longrightarrow> ps' ! j \<noteq> ps ! j \<Longrightarrow> ps' ! k \<noteq> ps ! k \<Longrightarrow> j = k"
  by (auto simp: step_change_def nth_list_update split: if_splits)
   (metis nth_list_update_neq)

lemma shape_pending: "shape i False ps \<Longrightarrow> i < length ps \<Longrightarrow> p_status (ps ! i) = Pending"
  by (simp add: shape_def fresh_def)

lemma shape_running: "shape i True ps \<Longrightarrow> i < length ps \<and> in_flight (ps ! i)"
  by (auto simp: shape_def)

lemma run_inv_shape:
  assumes "run_inv s" and "currentInvestigation s = Some cur"
  shows "length (pipelines cur) = length (run_pipelines s)"
    and "pc s = LoopHead i \<Longrightarrow> shape i False (pipelines cur)"
    and "pc s = Started i \<Longrightarrow> shape i True (pipelines cur)"
    and "pc s = Awaiting i f a \<Longrightarrow> shape i True (pipelines cur)"
    and "pc s = Finished \<Longrightarrow> shape (length (pipelines cur)) False (pipelines cur)"
    and "pc s \<noteq> Idle"
  using assms by (auto simp: run_inv_def)

lemma moves_proceed:
  assumes inv: "run_inv s" and cur: "currentInvestigation s = Some cur"
    and cur': "currentInvestigation (exec_proceed now s) = Some cur'"
  shows "step_change (pipelines cur) (pipelines cur')"
proof (cases "pc s")
  case (LoopHead i)
  show ?thesis
  proof (cases "i < length (run_pipelines s)")
    case True
    with run_inv_shape(1,2) [OF inv cur] LoopHead
    have "p_status (pipelines cur ! i) = Pending"
      by (simp add: shape_pending)
    then have "moves (pipelines cur ! i)
        ((run_pipelines s ! i)\<lparr>p_status := Running, progress := 0\<rparr>)"
      by (simp add: moves_def)
    from step_change_update [OF this] LoopHead True cur cur' show ?thesis
      by (auto simp: exec_proceed_def mark_running_def)
  next
    case False
    with LoopHead cur cur' show ?thesis
      by (auto simp: exec_proceed_def mark_finished_def Let_def step_change_refl)
  qed
next
  case (Started i)
  from run_inv_shape(3) [OF inv cur Started] have "in_flight (pipelines cur ! i)"
    by (simp add: shape_running)
  then have "\<And>e. moves (pipelines cur ! i)
      ((run_pipelines s ! i)\<lparr>p_status := Error, progress := 0, p_error := Some e\<rparr>)"
    by (simp add: moves_def in_flight_def settled_def)
  from step_change_update [OF this] Started cur cur' show ?thesis
    by (auto simp: exec_proceed_def mark_error_def Let_def step_change_refl
        split: option.splits)
qed (use cur cur' in \<open>auto simp: exec_proceed_def step_change_refl\<close>)

lemma moves_resolve:
  assumes inv: "run_inv s" and cur: "currentInvestigation s = Some cur"
    and cur': "currentInvestigation (exec_resolve r s) = Some cur'"
  shows "step_change (pipelines cur) (pipelines cur')"
proof (cases "pc s")
  case (Awaiting i f a)
  from run_inv_shape(4) [OF inv cur Awaiting] have "in_flight (pipelines cur ! i)"
    by (simp add: shape_running)
  then have "moves (pipelines cur ! i)
      ((run_pipelines s ! i)\<lparr>p_status := Completed, progress := 100, results := Some r\<rparr>)"
    by (simp add: moves_def in_flight_def settled_def)
  from step_change_update [OF this] Awaiting cur cur' show ?thesis
    by (auto simp: exec_resolve_def mark_completed_def)
qed (use cur cur' in \<open>auto simp: exec_resolve_def step_change_refl\<close>)

lemma moves_reject:
  assumes inv: "run_inv s" and cur: "currentInvestigation s = Some cur"
    and cur': "currentInvestigation (exec_reject e s) = Some cur'"
  shows "step_change (pipelines cur) (pipelines cur')"
proof (cases "pc s")
  case (Awaiting i f a)
  from run_inv_shape(4) [OF inv cur Awaiting] have "in_flight (pipelines cur ! i)"
    by (simp add: shape_running)
  then have "moves (pipelines cur ! i)
      ((run_pipelines s ! i)\<lparr>p_status := Error, progress := 0,
         p_error := Some (error_message e)\<rparr>)"
    by (simp add: moves_def in_flight_def settled_def)
  from step_change_update [OF this] Awaiting cur cur' show ?thesis
    by (auto simp: exec_reject_def mark_error_def)
qed (use cur cur' in \<open>auto simp: exec_reject_def step_change_refl\<close>)

lemma moves_tick:
  assumes "0 \<le> u" and "progress_tick i u cur = Inr cur'"
  shows "step_change (pipelines cur) (pipelines cur')"
proof (cases "i < length (pipelines cur) \<and> p_status (pipelines cur ! i) = Running
    \<and> progress (pipelines cur ! i) < 90")
  case True
  with assms(1) have "moves (pipelines cur ! i)
      ((pipelines cur ! i)\<lparr>progress := min 90 (progress (pipelines cur ! i) + u * 15)\<rparr>)"
    by (simp add: moves_def min_def)
  from step_change_update [OF this] True assms(2) show ?thesis
    by (auto simp: progress_tick_def Let_def)
next
  case False
  with assms(2) have "cur' = cur"
    by (auto simp: progress_tick_def Let_def split: if_splits)
  then show ?thesis by (simp add: step_change_refl)
qed

lemma moves_fire:
  assumes "0 \<le> u" and cur: "currentInvestigation s = Some cur"
    and cur': "currentInvestigation (fire_interval i u s) = Some cur'"
  shows "step_change (pipelines cur) (pipelines cur')"
proof (cases "i \<in> set (intervals s)")
  case True
  show ?thesis
  proof (cases "progress_tick i u cur")
    case (Inl e)
    with True cur cur' show ?thesis by (simp add: fire_interval_def step_change_refl)
  next
    case (Inr c)
    with True cur cur' have "c = cur'" by (simp add: fire_interval_def)
    with Inr moves_tick [OF assms(1)] show ?thesis by blast
  qed
next
  case False
  with cur cur' show ?thesis by (simp add: fire_interval_def step_change_refl)
qed

lemma moves_toggle:
  assumes "currentInvestigation s = Some cur"
    and "currentInvestigation (toggleInvestigationStatus s) = Some cur'"
  shows "step_change (pipelines cur) (pipelines cur')"
  using assms
  by (auto simp: toggleInvestigationStatus_def step_change_refl)

lemma moves_stop:
  assumes "currentInvestigation s = Some cur"
    and "currentInvestigation (stopInvestigation now s) = Some cur'"
  shows "step_change (pipelines cur) (pipelines cur')"
  using assms
  by (auto simp: stopInvestigation_def Let_def step_change_refl split: option.splits)

lemma step_run_pipelines: "run_pipelines (step ev s) = run_pipelines s"
  by (cases ev)
    (auto simp: step_def exec_proceed_def exec_resolve_def exec_reject_def
      fire_interval_def toggleInvestigationStatus_def stopInvestigation_def Let_def
      split: exec_pc.splits option.splits sum.splits)

lemma step_pipelines:
  assumes inv: "run_inv s" and cur: "currentInvestigation s = Some cur"
  shows "\<exists>cur'. currentInvestigation (step ev s) = Some cur'
           \<and> step_change (pipelines cur) (pipelines cur')"
proof -
  from run_inv_step [OF inv, of ev]
  obtain cur' where cur': "currentInvestigation (step ev s) = Some cur'"
    and len': "length (pipelines cur') = length (run_pipelines (step ev s))"
    by (auto simp: run_inv_def split: option.splits)
  from inv cur have len: "length (pipelines cur) = length (run_pipelines s)"
    by (simp add: run_inv_def)
  have "step_change (pipelines cur) (pipelines cur')"
  proof (cases ev)
    case (Proceed now)
    with cur' moves_proceed [OF inv cur] show ?thesis by (simp add: step_def)
  next
    case (Resolve r)
    with cur' moves_resolve [OF inv cur] show ?thesis by (simp add: step_def)
  next
    case (Reject e)
    with cur' moves_reject [OF inv cur] show ?thesis by (simp add: step_def)
  next
    case (Tick i u)
    show ?thesis
    proof (cases "suspended s \<and> 0 \<le> u \<and> u < 1")
      case True
      with Tick cur' moves_fire [OF _ cur, of u i] show ?thesis by (simp add: step_def)
    next
      case False
      with Tick cur cur' show ?thesis by (auto simp: step_def step_change_refl)
    qed
  next
    case Toggle
    with cur cur' moves_toggle [OF cur] show ?thesis
      by (auto simp: step_def step_change_refl split: if_splits)
  next
    case (Stop now)
    with cur cur' moves_stop [OF cur] show ?thesis
      by (auto simp: step_def step_change_refl split: if_splits)
  qed
  with cur' show ?thesis by simp
qed

subsection \<open>Consequences of the shape\<close>

lemma shape_cases:
  "shape k r ps \<Longrightarrow> j < length ps \<Longrightarrow> settled (ps ! j) \<or> in_flight (ps ! j) \<or> fresh (ps ! j)"
  unfolding shape_def by (metis linorder_neqE_nat)

lemma shape_prefix:
  assumes "shape k r ps" and "j < k'" and "k' < length ps" and "p_status (ps ! k') \<noteq> Pending"
  shows "settled (ps ! j)"
proof -
  from assms(1,3,4) have "k' < k \<or> (k' = k \<and> r)"
    unfolding shape_def fresh_def by (metis linorder_neqE_nat)
  with assms(1-3) show ?thesis
    unfolding shape_def by (metis less_trans)
qed

lemma shape_one_running:
  assumes "shape k r ps" and "j < length ps" and "p_status (ps ! j) = Running"
  shows "j = k \<and> r"
proof -
  from assms have "\<not> settled (ps ! j)" and "\<not> fresh (ps ! j)"
    by (simp_all add: settled_def fresh_def)
  with assms(1,2) show ?thesis
    unfolding shape_def by (metis linorder_neqE_nat)
qed

lemma shape_suffix:
  "shape k True ps \<Longrightarrow> k < j \<Longrightarrow> j < length ps \<Longrightarrow> p_status (ps ! j) = Pending"
  by (simp add: shape_def fresh_def)

lemma run_inv_some_shape:
  assumes "run_inv s" and "currentInvestigation s = Some cur"
  shows "\<exists>k r. shape k r (pipelines cur)"
  using assms by (cases "pc s") (auto simp: run_inv_def)

lemma settled_status: "settled p \<Longrightarrow> p_status p = Completed \<or> p_status p = Error"
  by (auto simp: settled_def)

lemma moves_terminal:
  "moves p p' \<Longrightarrow> p_status p = Completed \<or> p_status p = Error \<Longrightarrow> p' = p"
  by (auto simp: moves_def)

lemma run_inv_current: "run_inv s \<Longrightarrow> \<exists>cur. currentInvestigation s = Some cur"
  by (auto simp: run_inv_def split: option.splits)

subsection \<open>Terminal pipelines\<close>

text \<open>
  C6. In every state of a run (the session after \<open>startNewInvestigation\<close> and any
  sequence of events) every pipeline of the current investigation satisfies: status
  \<open>Completed\<close> implies progress 100 and a result; status \<open>Error\<close> implies progress
  0 and an error message; the two exclude each other. They are the terminal states:
  a pipeline in one of them is left unchanged by every further step, and when the
  executor has finished every pipeline is in one of them.
\<close>

theorem terminal_pipelines_consistent:
  fixes evs q ps ident t ev
  defines "s \<equiv> run evs (startNewInvestigation q ps (Inr ident) t initial_session)"
  shows "\<exists>cur cur'. currentInvestigation s = Some cur
           \<and> currentInvestigation (step ev s) = Some cur'
           \<and> (\<forall>j < length (pipelines cur).
                 (p_status (pipelines cur ! j) = Completed \<longrightarrow>
                    progress (pipelines cur ! j) = 100 \<and> results (pipelines cur ! j) \<noteq> None) \<and>
                 (p_status (pipelines cur ! j) = Error \<longrightarrow>
                    progress (pipelines cur ! j) = 0 \<and> p_error (pipelines cur ! j) \<noteq> None) \<and>
                 \<not> (p_status (pipelines cur ! j) = Completed \<and>
                     p_status (pipelines cur ! j) = Error) \<and>
                 (p_status (pipelines cur ! j) = Completed \<or>
                  p_status (pipelines cur ! j) = Error \<longrightarrow>
                    pipelines cur' ! j = pipelines cur ! j) \<and>
                 (pc s = Finished \<longrightarrow>
                    p_status (pipelines cur ! j) = Completed \<or>
                    p_status (pipelines cur ! j) = Error))"
proof -
  have inv: "run_inv s"
    unfolding s_def by (rule run_inv_reachable)
  then obtain cur where cur: "currentInvestigation s = Some cur"
    using run_inv_current by blast
  from step_pipelines [OF inv cur, of ev] obtain cur'
    where cur': "currentInvestigation (step ev s) = Some cur'"
      and chg: "step_change (pipelines cur) (pipelines cur')"
    by blast
  from run_inv_some_shape [OF inv cur] obtain k r where sh: "shape k r (pipelines cur)"
    by blast
  have "\<forall>j < length (pipelines cur).
      (p_status (pipelines cur ! j) = Completed \<longrightarrow>
         progress (pipelines cur ! j) = 100 \<and> results (pipelines cur ! j) \<noteq> None) \<and>
      (p_status (pipelines cur ! j) = Error \<longrightarrow>
         progress (pipelines cur ! j) = 0 \<and> p_error (pipelines cur ! j) \<noteq> None) \<and>
      \<not> (p_status (pipelines cur ! j) = Completed \<and> p_status (pipelines cur ! j) = Error) \<and>
      (p_status (pipelines cur ! j) = Completed \<or> p_status (pipelines cur ! j) = Error \<longrightarrow>
         pipelines cur' ! j = pipelines cur ! j) \<and>
      (pc s = Finished \<longrightarrow>
         p_status (pipelines cur ! j) = Completed \<or> p_status (pipelines cur ! j) = Error)"
  proof (intro allI impI)
    fix j assume j: "j < length (pipelines cur)"
    let ?p = "pipelines cur ! j"
    from shape_cases [OF sh j] have a: "p_status ?p = Completed \<longrightarrow>
        progress ?p = 100 \<and> results ?p \<noteq> None"
      and b: "p_status ?p = Error \<longrightarrow> progress ?p = 0 \<and> p_error ?p \<noteq> None"
      by (auto simp: settled_def in_flight_def fresh_def)
    have c: "\<not> (p_status ?p = Completed \<and> p_status ?p = Error)"
      by simp
    from step_change_moves [OF chg j] have d: "p_status ?p = Completed \<or> p_status ?p = Error
        \<longrightarrow> pipelines cur' ! j = ?p"
      using moves_terminal by blast
    have e: "pc s = Finished \<longrightarrow> p_status ?p = Completed \<or> p_status ?p = Error"
    proof
      assume "pc s = Finished"
      from run_inv_shape(5) [OF inv cur this] j have "settled ?p"
        by (simp add: shape_def)
      then show "p_status ?p = Completed \<or> p_status ?p = Error"
        by (rule settled_status)
    qed
    from a b c d e show "(p_status ?p = Completed \<longrightarrow>
         progress ?p = 100 \<and> results ?p \<noteq> None) \<and>
      (p_status ?p = Error \<longrightarrow> progress ?p = 0 \<and> p_error ?p \<noteq> None) \<and>
      \<not> (p_status ?p = Completed \<and> p_status ?p = Error) \<and>
      (p_status ?p = Completed \<or> p_status ?p = Error \<longrightarrow> pipelines cur' ! j = ?p) \<and>
      (pc s = Finished \<longrightarrow> p_status ?p = Completed \<or> p_status ?p = Error)"
      by blast
  qed
  with cur cur' show ?thesis by blast
qed

lemmas two_eval_defs = startNewInvestigation_def initial_session_def two_pipelines_def
  step_def exec_proceed_def exec_resolve_def exec_reject_def fire_interval_def
  progress_tick_def mark_running_def mark_completed_def mark_error_def mark_finished_def
  error_message_def pipelineExecutors_def suspended_def ws_connect_def Let_def

subsection \<open>The sample run, evaluated\<close>

lemma string_of_nat_digit: "n < 10 \<Longrightarrow> string_of_nat n = [''0123456789'' ! n]"
  by (simp add: string_of_nat.simps)

lemma two_events_8:
  "pc (run two_events two_started) = Finished
  \<and> intervals (run two_events two_started) = [1]
  \<and> currentInvestigation (run two_events two_started) = Some
     \<lparr> inv_id = ''inv_3'', inv_query = ''a@b.io'', status = InvError, startTime = 100, endTime = Some 130,
       pipelines = [ \<lparr> p_id = ''alias-mapping'', p_name = ''Alias Mapping'', p_status = Completed,
         progress = 100, results = Some (sample_result ''alias-mapping'' (91 / 100)), p_error = None \<rparr>,
       \<lparr> p_id = ''geo-ip-lookup'', p_name = ''Geo/IP Lookup'', p_status = Error,
         progress = 0, results = None, p_error = Some ''timeout'' \<rparr> ],
       summary = Some ''Investigation completed. 1/2 pipelines successful.'' \<rparr>"
  by (simp add: two_events_def two_started_def two_eval_defs string_of_nat_digit)

lemma two_events_4:
  "currentInvestigation (run (take 4 two_events) two_started) = Some
     \<lparr> inv_id = ''inv_3'', inv_query = ''a@b.io'', status = Active, startTime = 100,
       endTime = None,
       pipelines =
         [ \<lparr> p_id = ''alias-mapping'', p_name = ''Alias Mapping'', p_status = Completed,
             progress = 100, results = Some (sample_result ''alias-mapping'' (91 / 100)),
             p_error = None \<rparr>,
           \<lparr> p_id = ''geo-ip-lookup'', p_name = ''Geo/IP Lookup'', p_status = Pending,
             progress = 0, results = None, p_error = None \<rparr> ],
       summary = None \<rparr>"
  by (simp add: two_events_def two_started_def two_eval_defs)

lemma two_events_5:
  "currentInvestigation (step (Proceed 120) (run (take 4 two_events) two_started)) = Some
     \<lparr> inv_id = ''inv_3'', inv_query = ''a@b.io'', status = Active, startTime = 100,
       endTime = None,
       pipelines =
         [ \<lparr> p_id = ''alias-mapping'', p_name = ''Alias Mapping'', p_status = Completed,
             progress = 100, results = Some (sample_result ''alias-mapping'' (91 / 100)),
             p_error = None \<rparr>,
           \<lparr> p_id = ''geo-ip-lookup'', p_name = ''Geo/IP Lookup'', p_status = Running,
             progress = 0, results = None, p_error = None \<rparr> ],
       summary = None \<rparr>"
  by (simp add: two_events_def two_started_def two_eval_defs)

lemma two_events_2:
  "currentInvestigation (run (take 2 two_events) two_started) = Some
     \<lparr> inv_id = ''inv_3'', inv_query = ''a@b.io'', status = Active, startTime = 100,
       endTime = None,
       pipelines =
         [ \<lparr> p_id = ''alias-mapping'', p_name = ''Alias Mapping'', p_status = Running,
             progress = 0, results = None, p_error = None \<rparr>,
           \<lparr> p_id = ''geo-ip-lookup'', p_name = ''Geo/IP Lookup'', p_status = Pending,
             progress = 0, results = None, p_error = None \<rparr> ],
       summary = None \<rparr>"
  by (simp add: two_events_def two_started_def two_eval_defs)

lemma two_events_3:
  "currentInvestigation (step (Tick 0 (1 / 2)) (run (take 2 two_events) two_started)) = Some
     \<lparr> inv_id = ''inv_3'', inv_query = ''a@b.io'', status = Active, startTime = 100,
       endTime = None,
       pipelines =
         [ \<lparr> p_id = ''alias-mapping'', p_name = ''Alias Mapping'', p_status = Running,
             progress = 15 / 2, results = None, p_error = None \<rparr>,
           \<lparr> p_id = ''geo-ip-lookup'', p_name = ''Geo/IP Lookup'', p_status = Pending,
             progress = 0, results = None, p_error = None \<rparr> ],
       summary = None \<rparr>"
  by (simp add: two_events_def two_started_def two_eval_defs)

theorem terminal_pipelines_consistent_witness:
  "\<exists>cur. currentInvestigation (run two_events two_started) = Some cur
     \<and> pc (run two_events two_started) = Finished
     \<and> p_status (pipelines cur ! 0) = Completed \<and> progress (pipelines cur ! 0) = 100
     \<and> results (pipelines cur ! 0) \<noteq> None
     \<and> p_status (pipelines cur ! 1) = Error \<and> progress (pipelines cur ! 1) = 0
     \<and> p_error (pipelines cur ! 1) \<noteq> None"
  using terminal_pipelines_consistent [where evs = two_events and q = "''a@b.io''"
      and ps = two_pipelines and ident = "''inv_3''" and t = 100 and ev = Toggle,
      folded two_started_def] two_events_8
  by auto

subsection \<open>Sequential execution\<close>

text \<open>
  C7. In every state of a run at most one pipeline is running, and a pipeline that is
  no longer pending has only completed or failed pipelines before it. Whenever a step
  takes a pipeline out of \<open>Pending\<close>, that pipeline is then running, every
  pipeline before it had already reached \<open>Completed\<close> or \<open>Error\<close> before the
  step, and every pipeline after it is still pending: the executor starts the
  pipelines in list order, one after the other.
\<close>

theorem sequential_in_order:
  fixes evs q ps ident t ev
  defines "s \<equiv> run evs (startNewInvestigation q ps (Inr ident) t initial_session)"
  shows "\<exists>cur cur'. currentInvestigation s = Some cur
           \<and> currentInvestigation (step ev s) = Some cur'
           \<and> length (pipelines cur') = length (pipelines cur)
           \<and> (\<forall>j k. j < length (pipelines cur) \<and> k < length (pipelines cur)
                  \<and> p_status (pipelines cur ! j) = Running
                  \<and> p_status (pipelines cur ! k) = Running \<longrightarrow> j = k)
           \<and> (\<forall>j k. j < k \<and> k < length (pipelines cur)
                  \<and> p_status (pipelines cur ! k) \<noteq> Pending \<longrightarrow>
                  p_status (pipelines cur ! j) = Completed \<or>
                  p_status (pipelines cur ! j) = Error)
           \<and> (\<forall>k. k < length (pipelines cur)
                  \<and> p_status (pipelines cur ! k) = Pending
                  \<and> p_status (pipelines cur' ! k) \<noteq> Pending \<longrightarrow>
                  p_status (pipelines cur' ! k) = Running
                  \<and> (\<forall>j < k. p_status (pipelines cur ! j) = Completed \<or>
                              p_status (pipelines cur ! j) = Error)
                  \<and> (\<forall>j. k < j \<and> j < length (pipelines cur) \<longrightarrow>
                              p_status (pipelines cur' ! j) = Pending))"
proof -
  have inv: "run_inv s"
    unfolding s_def by (rule run_inv_reachable)
  then obtain cur where cur: "currentInvestigation s = Some cur"
    using run_inv_current by blast
  from step_pipelines [OF inv cur, of ev] obtain cur'
    where cur': "currentInvestigation (step ev s) = Some cur'"
      and chg: "step_change (pipelines cur) (pipelines cur')"
    by blast
  have inv': "run_inv (step ev s)"
    using inv by (rule run_inv_step)
  from run_inv_some_shape [OF inv cur] obtain k r where sh: "shape k r (pipelines cur)"
    by blast
  from run_inv_some_shape [OF inv' cur'] obtain k' r'
    where sh': "shape k' r' (pipelines cur')"
    by blast
  have len: "length (pipelines cur') = length (pipelines cur)"
    using chg by (rule step_change_length)
  have one: "\<forall>i j. i < length (pipelines cur) \<and> j < length (pipelines cur)
      \<and> p_status (pipelines cur ! i) = Running
      \<and> p_status (pipelines cur ! j) = Running \<longrightarrow> i = j"
    using shape_one_running [OF sh] by blast
  have order: "\<forall>i j. i < j \<and> j < length (pipelines cur)
      \<and> p_status (pipelines cur ! j) \<noteq> Pending \<longrightarrow>
      p_status (pipelines cur ! i) = Completed \<or> p_status (pipelines cur ! i) = Error"
    using shape_prefix [OF sh] settled_status by blast
  have start: "\<forall>n. n < length (pipelines cur)
      \<and> p_status (pipelines cur ! n) = Pending
      \<and> p_status (pipelines cur' ! n) \<noteq> Pending \<longrightarrow>
      p_status (pipelines cur' ! n) = Running
      \<and> (\<forall>j < n. p_status (pipelines cur ! j) = Completed \<or>
                  p_status (pipelines cur ! j) = Error)
      \<and> (\<forall>j. n < j \<and> j < length (pipelines cur) \<longrightarrow>
                  p_status (pipelines cur' ! j) = Pending)"
  proof (intro allI impI, elim conjE)
    fix n
    assume n: "n < length (pipelines cur)"
      and before: "p_status (pipelines cur ! n) = Pending"
      and after: "p_status (pipelines cur' ! n) \<noteq> Pending"
    from step_change_moves [OF chg n] before after
    have run: "p_status (pipelines cur' ! n) = Running"
      by (auto simp: moves_def)
    with shape_one_running [OF sh'] n len have front: "n = k' \<and> r'"
      by simp
    have later: "\<forall>j. n < j \<and> j < length (pipelines cur) \<longrightarrow>
        p_status (pipelines cur' ! j) = Pending"
      using shape_suffix sh' front len by auto
    have earlier: "\<forall>j < n. p_status (pipelines cur ! j) = Completed \<or>
        p_status (pipelines cur ! j) = Error"
    proof (intro allI impI)
      fix j assume j: "j < n"
      from before after have "pipelines cur' ! n \<noteq> pipelines cur ! n"
        by auto
      with step_change_one [OF chg] j have same: "pipelines cur' ! j = pipelines cur ! j"
        by (metis less_irrefl)
      from shape_prefix [OF sh' j] n len after have "settled (pipelines cur' ! j)"
        by simp
      with same show "p_status (pipelines cur ! j) = Completed \<or>
          p_status (pipelines cur ! j) = Error"
        by (simp add: settled_status)
    qed
    from run earlier later
    show "p_status (pipelines cur' ! n) = Running
      \<and> (\<forall>j < n. p_status (pipelines cur ! j) = Completed \<or>
                  p_status (pipelines cur ! j) = Error)
      \<and> (\<forall>j. n < j \<and> j < length (pipelines cur) \<longrightarrow>
                  p_status (pipelines cur' ! j) = Pending)"
      by blast
  qed
  from cur cur' len one order start show ?thesis
    by blast
qed

theorem sequential_in_order_witness:
  "\<exists>cur cur'. currentInvestigation (run (take 4 two_events) two_started) = Some cur
     \<and> currentInvestigation (step (Proceed 120) (run (take 4 two_events) two_started))
         = Some cur'
     \<and> p_status (pipelines cur ! 1) = Pending
     \<and> p_status (pipelines cur' ! 1) = Running
     \<and> p_status (pipelines cur ! 0) = Completed"
  using sequential_in_order [where evs = "take 4 two_events" and q = "''a@b.io''"
      and ps = two_pipelines and ident = "''inv_3''" and t = 100 and ev = "Proceed 120",
      folded two_started_def] two_events_4 two_events_5
  by auto

subsection \<open>Progress while running\<close>

text \<open>
  C8. In every state of a run a running pipeline has a progress between 0 and 90. A
  step (a tick of an interval in particular) that leaves it running does not lower
  its progress and keeps it at most 90; a step that ends it sets progress 100 with
  status \<open>Completed\<close> or progress 0 with status \<open>Error\<close>.
\<close>

theorem running_progress_bounded:
  fixes evs q ps ident t ev
  defines "s \<equiv> run evs (startNewInvestigation q ps (Inr ident) t initial_session)"
  shows "\<exists>cur cur'. currentInvestigation s = Some cur
           \<and> currentInvestigation (step ev s) = Some cur'
           \<and> (\<forall>k < length (pipelines cur).
                 p_status (pipelines cur ! k) = Running \<longrightarrow>
                   0 \<le> progress (pipelines cur ! k) \<and> progress (pipelines cur ! k) \<le> 90
                   \<and> (p_status (pipelines cur' ! k) = Running \<longrightarrow>
                        progress (pipelines cur ! k) \<le> progress (pipelines cur' ! k)
                        \<and> progress (pipelines cur' ! k) \<le> 90)
                   \<and> (p_status (pipelines cur' ! k) \<noteq> Running \<longrightarrow>
                        (p_status (pipelines cur' ! k) = Completed
                           \<and> progress (pipelines cur' ! k) = 100) \<or>
                        (p_status (pipelines cur' ! k) = Error
                           \<and> progress (pipelines cur' ! k) = 0)))"
proof -
  have inv: "run_inv s"
    unfolding s_def by (rule run_inv_reachable)
  then obtain cur where cur: "currentInvestigation s = Some cur"
    using run_inv_current by blast
  from step_pipelines [OF inv cur, of ev] obtain cur'
    where cur': "currentInvestigation (step ev s) = Some cur'"
      and chg: "step_change (pipelines cur) (pipelines cur')"
    by blast
  from run_inv_some_shape [OF inv cur] obtain n r where sh: "shape n r (pipelines cur)"
    by blast
  have "\<forall>k < length (pipelines cur).
      p_status (pipelines cur ! k) = Running \<longrightarrow>
        0 \<le> progress (pipelines cur ! k) \<and> progress (pipelines cur ! k) \<le> 90
        \<and> (p_status (pipelines cur' ! k) = Running \<longrightarrow>
             progress (pipelines cur ! k) \<le> progress (pipelines cur' ! k)
             \<and> progress (pipelines cur' ! k) \<le> 90)
        \<and> (p_status (pipelines cur' ! k) \<noteq> Running \<longrightarrow>
             (p_status (pipelines cur' ! k) = Completed
                \<and> progress (pipelines cur' ! k) = 100) \<or>
             (p_status (pipelines cur' ! k) = Error
                \<and> progress (pipelines cur' ! k) = 0))"
  proof (intro allI impI)
    fix k assume k: "k < length (pipelines cur)"
      and run: "p_status (pipelines cur ! k) = Running"
    from shape_cases [OF sh k] run have fl: "in_flight (pipelines cur ! k)"
      by (auto simp: settled_def fresh_def)
    from step_change_moves [OF chg k] run fl
    show "0 \<le> progress (pipelines cur ! k) \<and> progress (pipelines cur ! k) \<le> 90
        \<and> (p_status (pipelines cur' ! k) = Running \<longrightarrow>
             progress (pipelines cur ! k) \<le> progress (pipelines cur' ! k)
             \<and> progress (pipelines cur' ! k) \<le> 90)
        \<and> (p_status (pipelines cur' ! k) \<noteq> Running \<longrightarrow>
             (p_status (pipelines cur' ! k) = Completed
                \<and> progress (pipelines cur' ! k) = 100) \<or>
             (p_status (pipelines cur' ! k) = Error
                \<and> progress (pipelines cur' ! k) = 0))"
      by (auto simp: moves_def in_flight_def settled_def)
  qed
  with cur cur' show ?thesis by blast
qed

theorem running_progress_bounded_witness:
  "\<exists>cur cur'. currentInvestigation (run (take 2 two_events) two_started) = Some cur
     \<and> currentInvestigation (step (Tick 0 (1 / 2)) (run (take 2 two_events) two_started))
         = Some cur'
     \<and> p_status (pipelines cur ! 0) = Running \<and> progress (pipelines cur ! 0) = 0
     \<and> p_status (pipelines cur' ! 0) = Running \<and> progress (pipelines cur' ! 0) = 15 / 2
     \<and> progress (pipelines cur ! 0) \<le> progress (pipelines cur' ! 0)
     \<and> progress (pipelines cur' ! 0) \<le> 90"
  using running_progress_bounded [where evs = "take 2 two_events" and q = "''a@b.io''"
      and ps = two_pipelines and ident = "''inv_3''" and t = 100 and ev = "Tick 0 (1 / 2)",
      folded two_started_def] two_events_2 two_events_3
  by auto

subsection \<open>Failure isolation\<close>



lemma known_awaited:
  assumes inv: "run_inv s" and pc: "pc s = Started i"
    and known: "pipelineExecutors (p_id (run_pipelines s ! i)) = Some f"
  shows "\<exists>query. run_query s = Some query \<and>
           step (Proceed now) s =
             s\<lparr>pc := Awaiting i f (runner_argument (p_id (run_pipelines s ! i)) query)\<rparr>"
proof -
  from inv obtain query where "run_query s = Some query"
    by (auto simp: run_inv_def split: option.splits)
  with pc known show ?thesis
    by (simp add: step_def exec_proceed_def Let_def)
qed





lemmas app_eval_defs = app_started_def startInvestigationWithPipelines_def
  startNewInvestigation_def initial_session_def app_pipelines_def
  step_def exec_proceed_def exec_resolve_def exec_reject_def fire_interval_def
  progress_tick_def mark_running_def mark_completed_def mark_error_def mark_finished_def
  error_message_def pipelineExecutors_def suspended_def ws_connect_def Let_def






subsection \<open>The progress interval\<close>

lemma finished_stays:
  assumes "pc s = Finished"
  shows "pc (step ev s) = Finished \<and> intervals (step ev s) = intervals s"
  using assms
  by (cases ev)
    (auto simp: step_def exec_proceed_def exec_resolve_def exec_reject_def
      fire_interval_def toggleInvestigationStatus_def stopInvestigation_def Let_def
      split: option.splits sum.splits)

lemma finished_intervals:
  "pc s = Finished \<Longrightarrow> intervals (run evs s) = intervals s"
  by (induction evs arbitrary: s) (simp_all add: finished_stays)

text \<open>
  C2 fails on the code. In the sample run the first stage resolves and its interval
  is cleared, but the second stage rejects and its interval stays live: it is live
  when the executor moves on, when the executor has finished, and after every
  further sequence of events. The same holds on the path of an unknown pipeline id.
  \<^verbatim>\<open>clearInterval\<close> is called after the \<^verbatim>\<open>await\<close> only; the \<^verbatim>\<open>catch\<close> block does
  not call it.
\<close>

theorem interval_outlives_failed_stage:
  "intervals (run (take 2 two_events) two_started) = [0]
   \<and> intervals (run (take 4 two_events) two_started) = []
   \<and> intervals (run (take 6 two_events) two_started) = [1]
   \<and> pc (run (take 7 two_events) two_started) = LoopHead 2
   \<and> intervals (run (take 7 two_events) two_started) = [1]
   \<and> pc (run two_events two_started) = Finished
   \<and> (\<forall>evs. intervals (run evs (run two_events two_started)) = [1])
   \<and> pc (run [Proceed 110, Proceed 120] app_started) = LoopHead 1
   \<and> intervals (run [Proceed 110, Proceed 120] app_started) = [0]"
proof -
  have a: "intervals (run (take 2 two_events) two_started) = [0]"
    and b: "intervals (run (take 4 two_events) two_started) = []"
    and c: "intervals (run (take 6 two_events) two_started) = [1]"
    and d: "pc (run (take 7 two_events) two_started) = LoopHead 2"
    and e: "intervals (run (take 7 two_events) two_started) = [1]"
    by (simp_all add: two_events_def two_started_def two_eval_defs)
  have f: "pc (run two_events two_started) = Finished"
    and g: "intervals (run two_events two_started) = [1]"
    using two_events_8 by simp_all
  from finished_intervals [OF f] g
  have h: "\<forall>evs. intervals (run evs (run two_events two_started)) = [1]"
    by simp
  have i: "pc (run [Proceed 110, Proceed 120] app_started) = LoopHead 1"
    and j: "intervals (run [Proceed 110, Proceed 120] app_started) = [0]"
    by (simp_all add: app_eval_defs)
  from a b c d e f h i j show ?thesis by (intro conjI)
qed

subsection \<open>The scenario run\<close>

lemma scenario_emails:
  "match_g emailRegex ''check user@example.com images/photo.jpg'' = Some [''user@example.com'']"
  by code_simp

lemma scenario_files:
  "match_g fileRegex ''check user@example.com images/photo.jpg'' = Some [''images/photo.jpg'']"
  by code_simp

lemma scenario_targets:
  "targets (parseForensicsQuery scenario_query) = [''user@example.com'', ''images/photo.jpg'']"
  by (simp add: parseForensicsQuery_def scenario_query_def scenario_emails scenario_files
      Let_def)

lemma no_runner_step:
  assumes inv: "run_inv s"
    and unk: "\<forall>p \<in> set (run_pipelines s). pipelineExecutors (p_id p) = None"
    and pc: "\<forall>i f a. pc s \<noteq> Awaiting i f a"
  shows "\<forall>i f a. pc (step ev s) \<noteq> Awaiting i f a"
proof (cases ev)
  case (Proceed now)
  show ?thesis
  proof (cases "pc s")
    case (Started i)
    from inv obtain cur where cur: "currentInvestigation s = Some cur"
      using run_inv_current by blast
    from run_inv_shape(1,3) [OF inv cur] Started have "i < length (run_pipelines s)"
      using shape_running by fastforce
    with unk have "pipelineExecutors (p_id (run_pipelines s ! i)) = None"
      by simp
    with Proceed Started show ?thesis
      by (simp add: step_def exec_proceed_def Let_def)
  qed (use Proceed pc in \<open>auto simp: step_def exec_proceed_def\<close>)
qed (use pc in \<open>auto simp: step_def exec_resolve_def exec_reject_def fire_interval_def
      toggleInvestigationStatus_def stopInvestigation_def Let_def
      split: exec_pc.splits option.splits sum.splits\<close>)

lemma no_runner_run:
  assumes "run_inv s"
    and "\<forall>p \<in> set (run_pipelines s). pipelineExecutors (p_id p) = None"
    and "\<forall>i f a. pc s \<noteq> Awaiting i f a"
  shows "\<forall>i f a. pc (run evs s) \<noteq> Awaiting i f a"
  using assms
proof (induction evs arbitrary: s)
  case Nil
  then show ?case by simp
next
  case (Cons ev evs)
  from Cons.prems have "run_inv (step ev s)"
    and "\<forall>p \<in> set (run_pipelines (step ev s)). pipelineExecutors (p_id p) = None"
    and "\<forall>i f a. pc (step ev s) \<noteq> Awaiting i f a"
    by (simp_all add: run_inv_step step_run_pipelines no_runner_step)
  from Cons.IH [OF this] show ?case by simp
qed

lemma scenario_no_runner:
  "\<forall>i f a. pc (run evs scenario_started) \<noteq> Awaiting i f a"
proof (rule no_runner_run)
  show "run_inv scenario_started"
    unfolding scenario_started_def startInvestigationWithPipelines_def
    by (rule run_inv_start)
  show "\<forall>p \<in> set (run_pipelines scenario_started). pipelineExecutors (p_id p) = None"
    by (simp add: scenario_started_def startInvestigationWithPipelines_def
        startNewInvestigation_def Let_def app_pipelines_def pipelineExecutors_def)
  show "\<forall>i f a. pc scenario_started \<noteq> Awaiting i f a"
    by (simp add: scenario_started_def startInvestigationWithPipelines_def
        startNewInvestigation_def Let_def)
qed

lemma scenario_end:
  "pc (run (replicate 11 (Proceed 200)) scenario_started) = Finished"
  "map_option status (currentInvestigation (run (replicate 11 (Proceed 200)) scenario_started))
     = Some InvError"
  "map_option summary (currentInvestigation (run (replicate 11 (Proceed 200)) scenario_started))
     = Some (Some ''Investigation completed. 0/5 pipelines successful.'')"
  "map_option (map (\<lambda>p. (p_status p, p_error p)) \<circ> pipelines)
       (currentInvestigation (run (replicate 11 (Proceed 200)) scenario_started))
     = Some [(Error, Some ''Unknown pipeline: alias''),
             (Error, Some ''Unknown pipeline: metadata''),
             (Error, Some ''Unknown pipeline: image''),
             (Error, Some ''Unknown pipeline: geo''),
             (Error, Some ''Unknown pipeline: deepfake'')]"
  by (simp_all add: scenario_started_def startInvestigationWithPipelines_def
      startNewInvestigation_def initial_session_def app_pipelines_def
      step_def exec_proceed_def mark_running_def mark_error_def mark_finished_def
      error_message_def pipelineExecutors_def ws_connect_def Let_def
      numeral_eq_Suc string_of_nat_digit)

lemma hook_keys_end:
  "pc (run all_resolve
        (startNewInvestigation scenario_query hook_pipelines (Inr ''inv_5'') 100
           initial_session)) = Finished"
  "map_option status (currentInvestigation (run all_resolve
        (startNewInvestigation scenario_query hook_pipelines (Inr ''inv_5'') 100
           initial_session))) = Some InvCompleted"
  "map_option summary (currentInvestigation (run all_resolve
        (startNewInvestigation scenario_query hook_pipelines (Inr ''inv_5'') 100
           initial_session)))
     = Some (Some ''Investigation completed. 5/5 pipelines successful.'')"
  by (simp_all add: all_resolve_def hook_pipelines_def
      startNewInvestigation_def initial_session_def app_pipelines_def
      step_def exec_proceed_def exec_resolve_def mark_running_def mark_completed_def
      mark_error_def mark_finished_def
      error_message_def pipelineExecutors_def ws_connect_def Let_def
      string_of_nat_digit)

text \<open>
  C1 fails on the code. The parser does find the two targets of the scenario query.
  But the pipelines the app passes carry the ids \<^verbatim>\<open>alias\<close>, \<^verbatim>\<open>metadata\<close>,
  \<^verbatim>\<open>image\<close>, \<^verbatim>\<open>geo\<close> and \<^verbatim>\<open>deepfake\<close>, none of which is a key of the executor's
  table. So in no state of the run, whatever the events, is a runner awaited: every
  stage takes the path of the unknown id, and the run ends with five failed
  pipelines, the status \<open>InvError\<close> and the summary of 0 out of 5. Started with the
  same five pipelines under the table's keys, and with every runner resolving, the
  run ends with the status \<open>InvCompleted\<close> and the summary of 5 out of 5.
\<close>

theorem scenario_through_app_entry:
  "targets (parseForensicsQuery scenario_query) = [''user@example.com'', ''images/photo.jpg'']
   \<and> (\<forall>evs i f a. pc (run evs scenario_started) \<noteq> Awaiting i f a)
   \<and> pc (run (replicate 11 (Proceed 200)) scenario_started) = Finished
   \<and> map_option (map (\<lambda>p. (p_status p, p_error p)) \<circ> pipelines)
         (currentInvestigation (run (replicate 11 (Proceed 200)) scenario_started))
       = Some [(Error, Some ''Unknown pipeline: alias''),
               (Error, Some ''Unknown pipeline: metadata''),
               (Error, Some ''Unknown pipeline: image''),
               (Error, Some ''Unknown pipeline: geo''),
               (Error, Some ''Unknown pipeline: deepfake'')]
   \<and> map_option status
         (currentInvestigation (run (replicate 11 (Proceed 200)) scenario_started))
       = Some InvError
   \<and> map_option summary
         (currentInvestigation (run (replicate 11 (Proceed 200)) scenario_started))
       = Some (Some ''Investigation completed. 0/5 pipelines successful.'')
   \<and> map_option status (currentInvestigation (run all_resolve
          (startNewInvestigation scenario_query hook_pipelines (Inr ''inv_5'') 100
             initial_session))) = Some InvCompleted
   \<and> map_option summary (currentInvestigation (run all_resolve
          (startNewInvestigation scenario_query hook_pipelines (Inr ''inv_5'') 100
             initial_session)))
       = Some (Some ''Investigation completed. 5/5 pipelines successful.'')"
proof -
  have "\<forall>evs i f a. pc (run evs scenario_started) \<noteq> Awaiting i f a"
    using scenario_no_runner by blast
  with scenario_targets scenario_end hook_keys_end show ?thesis
    by (intro conjI)
qed

end
